theory Spec2Isabelle
  imports Main
begin

section \<open>Paths and strings\<close>

text \<open>
  A \<^verbatim>\<open>pathlib.Path\<close> is modelled by the list of its components; the paths of the
  program are relative paths built from the search directory, the names of the
  directories below it and a file name.  \<^verbatim>\<open>Path.name\<close> is the last component (the
  empty string for the empty path), \<^verbatim>\<open>dir / name\<close> appends one component.
\<close>

type_synonym path = "string list"

definition Path_of :: "string \<Rightarrow> path" where
  "Path_of file = [file]"

definition name :: "path \<Rightarrow> string" where
  "name p = (if p = [] then [] else last p)"

definition joinpath :: "path \<Rightarrow> string \<Rightarrow> path" where
  "joinpath dir n = dir @ [n]"

text \<open>
  \<^verbatim>\<open>str.rfind\<close>: the index of the last occurrence of a character, \<open>-1\<close> when there
  is none.  The helper walks the string from the left and remembers the last hit.
\<close>

fun rfind_from :: "char \<Rightarrow> string \<Rightarrow> int \<Rightarrow> int \<Rightarrow> int" where
  "rfind_from c [] i found = found"
| "rfind_from c (x # xs) i found = rfind_from c xs (i + 1) (if x = c then i else found)"

definition rfind :: "char \<Rightarrow> string \<Rightarrow> int" where
  "rfind c s = rfind_from c s 0 (- 1)"

text \<open>
  \<^verbatim>\<open>Path.suffix\<close> and \<^verbatim>\<open>Path.stem\<close> as in the pathlib of CPython 3.12 (the first
  release with \<^verbatim>\<open>Path.walk\<close>): with \<^verbatim>\<open>i = name.rfind('.')\<close>, the suffix is
  \<^verbatim>\<open>name[i:]\<close> and the stem \<^verbatim>\<open>name[:i]\<close> when \<^verbatim>\<open>0 < i < len(name) - 1\<close>; otherwise
  the suffix is empty and the stem is the whole name.
\<close>

definition suffix :: "path \<Rightarrow> string" where
  "suffix p =
     (let n = name p; i = rfind CHR ''.'' n
      in if 0 < i \<and> i < int (length n) - 1 then drop (nat i) n else [])"

definition stem :: "path \<Rightarrow> string" where
  "stem p =
     (let n = name p; i = rfind CHR ''.'' n
      in if 0 < i \<and> i < int (length n) - 1 then take (nat i) n else n)"

text \<open>
  \<^verbatim>\<open>str.lower\<close> on the ASCII letters.  A \<^typ>\<open>char\<close> is a byte; bytes outside
  \<^verbatim>\<open>A-Z\<close> stay as they are.  No character outside ASCII has a lower-case form
  that is one of the letters of the extensions below, so membership of a lowered
  suffix in the extension sets is the same as in Python.
\<close>

definition lower_char :: "char \<Rightarrow> char" where
  "lower_char c =
     (let n = (of_char c :: nat) in if 65 \<le> n \<and> n \<le> 90 then char_of (n + 32) else c)"

definition lower :: "string \<Rightarrow> string" where
  "lower s = map lower_char s"

section \<open>File types and priorities\<close>

definition XMP_TYPES :: "string set" where
  "XMP_TYPES = {''.xmp''}"

definition RAW_TYPES :: "string set" where
  "RAW_TYPES = {''.arw'', ''.cr2'', ''.dng'', ''.raf'', ''.nef''}"

definition JPG_TYPES :: "string set" where
  "JPG_TYPES = {''.jpg'', ''.jpeg'', ''.heic''}"

definition ALL_AVAILABLE_TYPES :: "string set" where
  "ALL_AVAILABLE_TYPES = XMP_TYPES \<union> RAW_TYPES \<union> JPG_TYPES"

text \<open>
  The dictionary \<^verbatim>\<open>TYPE_PRIORITIES\<close> merges three comprehensions; a later one
  overrides an earlier one, as \<open>++\<close> does.
\<close>

definition TYPE_PRIORITIES :: "string \<rightharpoonup> int" where
  "TYPE_PRIORITIES =
     (\<lambda>ext. if ext \<in> XMP_TYPES then Some 3 else None)
     ++ (\<lambda>ext. if ext \<in> RAW_TYPES then Some 2 else None)
     ++ (\<lambda>ext. if ext \<in> JPG_TYPES then Some 1 else None)"

section \<open>Exceptions and diagnostic output\<close>

text \<open>
  The messages of the program are kept as structured values: each constructor stands
  for one format string of the source and carries the values interpolated into it.
  \<open>Found\<close>, \<open>Updating\<close> and \<open>Skipping\<close> go to standard output,
  \<open>Err_ambiguous\<close> and \<open>Err_aborted\<close> to standard error.
\<close>

datatype event =
    Found string path
  | Updating string path
  | Skipping path
  | Err_ambiguous string "path option" path
  | Err_aborted int

datatype value_error = Unavailable_file_type path | Same_rank path path

datatype exc = ValueError value_error | KeyError string | SystemExit int

section \<open>select_preferred_path\<close>

text \<open>
  The second check of the function: \<^verbatim>\<open>if cur_path and new_path\<close> holds exactly when
  \<^verbatim>\<open>cur_path\<close> is not \<^verbatim>\<open>None\<close> (a path object is always true).
\<close>

definition same_rank_check :: "path option \<Rightarrow> path \<Rightarrow> exc option" where
  "same_rank_check cur_path new_path =
     (case cur_path of
        None \<Rightarrow> None
      | Some cur \<Rightarrow>
          (let combined_suffix_set = {lower (suffix cur), lower (suffix new_path)}
           in if combined_suffix_set \<subseteq> RAW_TYPES
                 \<or> combined_suffix_set \<subseteq> JPG_TYPES
                 \<or> combined_suffix_set \<subseteq> XMP_TYPES
              then Some (ValueError (Same_rank cur new_path))
              else None))"

text \<open>Subscripting the priority table raises \<^verbatim>\<open>KeyError\<close> on a missing key.\<close>

definition priority_of :: "path \<Rightarrow> exc + int" where
  "priority_of p =
     (case TYPE_PRIORITIES (lower (suffix p)) of
        None \<Rightarrow> Inl (KeyError (lower (suffix p)))
      | Some n \<Rightarrow> Inr n)"

definition cur_priority_of :: "path option \<Rightarrow> exc + int" where
  "cur_priority_of cur_path =
     (case cur_path of Some cur \<Rightarrow> priority_of cur | None \<Rightarrow> Inr 0)"

text \<open>
  The result pairs the messages written with either the exception raised or the
  value returned.  The value is a \<^typ>\<open>path option\<close> because the last statement
  returns \<^verbatim>\<open>cur_path\<close>, whose type is \<^verbatim>\<open>Path | None\<close>.
\<close>

definition select_preferred_path ::
  "path option \<Rightarrow> path \<Rightarrow> event list \<times> (exc + path option)" where
  "select_preferred_path cur_path new_path =
     (if lower (suffix new_path) \<notin> ALL_AVAILABLE_TYPES
      then ([], Inl (ValueError (Unavailable_file_type new_path)))
      else case same_rank_check cur_path new_path of
        Some e \<Rightarrow> ([], Inl e)
      | None \<Rightarrow>
         (case cur_priority_of cur_path of
            Inl e \<Rightarrow> ([], Inl e)
          | Inr cur_path_priority \<Rightarrow>
             (case priority_of new_path of
                Inl e \<Rightarrow> ([], Inl e)
              | Inr new_path_priority \<Rightarrow>
                  if cur_path_priority = 0
                  then ([Found (stem new_path) new_path], Inr (Some new_path))
                  else if cur_path_priority = 1 \<or> new_path_priority = 1
                  then ([Err_ambiguous (stem new_path) cur_path new_path], Inl (SystemExit 1))
                  else if new_path_priority > cur_path_priority
                  then ([Updating (stem new_path) new_path], Inr (Some new_path))
                  else ([], Inr cur_path))))"

section \<open>Records, the object store and the directory tree\<close>

text \<open>The dataclass \<^verbatim>\<open>Image\<close>.\<close>

record Image =
  line_no :: int
  input_file_path :: path
  input_desc :: string
  found_file_path :: "path option"

text \<open>
  The scan mutates \<^verbatim>\<open>Image\<close> objects that the caller's mapping refers to, so objects
  live in a store and are named by references.  A mapping object is a dictionary
  from stems to references of \<^verbatim>\<open>Image\<close> objects; it lives in the store as well, and
  the argument \<^verbatim>\<open>images\<close> is a reference to it.
\<close>

type_synonym ref = nat

record store =
  dicts :: "ref \<Rightarrow> (string \<rightharpoonup> ref)"
  objects :: "ref \<Rightarrow> Image"

text \<open>
  A directory holds the names of its files and its named subdirectories, both in
  the order in which the operating system enumerates them.
\<close>

datatype fsdir = Dir (dir_files: "string list") (dir_subdirs: "(string \<times> fsdir) list")

text \<open>
  \<^verbatim>\<open>Path.walk()\<close>, top-down: it yields a directory with its file names, then walks
  the subdirectories that are left in \<^verbatim>\<open>subdirs\<close> once the loop body has pruned it,
  in their order.  The loop body keeps the names that are not in \<^verbatim>\<open>ignore_dirs\<close>.
\<close>

fun walk :: "string set \<Rightarrow> path \<Rightarrow> fsdir \<Rightarrow> (path \<times> string list) list"
  and walk_subdirs :: "string set \<Rightarrow> path \<Rightarrow> (string \<times> fsdir) list \<Rightarrow> (path \<times> string list) list"
where
  "walk ignore_dirs current_dir (Dir files subdirs) =
     (current_dir, files) # walk_subdirs ignore_dirs current_dir subdirs"
| "walk_subdirs ignore_dirs current_dir [] = []"
| "walk_subdirs ignore_dirs current_dir ((d, sub) # rest) =
     (if d \<notin> ignore_dirs then walk ignore_dirs (joinpath current_dir d) sub else [])
     @ walk_subdirs ignore_dirs current_dir rest"

section \<open>find_matching_files\<close>

text \<open>The variables of the loop: the counter, the store and the output so far.\<close>

record scan_state =
  scanned :: int
  heap :: store
  out :: "event list"

definition set_found_file_path :: "ref \<Rightarrow> path option \<Rightarrow> store \<Rightarrow> store" where
  "set_found_file_path r p h =
     h\<lparr>objects := (objects h)(r := (objects h r)\<lparr>found_file_path := p\<rparr>)\<rparr>"

text \<open>
  The body of the inner loop for one file name.  The first component of the result
  is the exception that ends the scan, if any.
\<close>

definition scan_file ::
  "string set \<Rightarrow> ref \<Rightarrow> int \<Rightarrow> path \<Rightarrow> string \<Rightarrow> scan_state \<Rightarrow> exc option \<times> scan_state" where
  "scan_file file_type_filter images max_scan_items current_dir fname s =
     (let file = Path_of fname;
          s1 = s\<lparr>scanned := scanned s + 1\<rparr>
      in if scanned s1 > max_scan_items
         then (Some (SystemExit 1), s1\<lparr>out := out s1 @ [Err_aborted max_scan_items]\<rparr>)
         else if lower (suffix file) \<notin> file_type_filter
         then (None, s1\<lparr>out := out s1 @ [Skipping file]\<rparr>)
         else case dicts (heap s1) images (stem file) of
           None \<Rightarrow> (None, s1)
         | Some r \<Rightarrow>
            (let cur_path = found_file_path (objects (heap s1) r);
                 new_path = joinpath current_dir (name file)
             in case select_preferred_path cur_path new_path of
                  (evs, Inl e) \<Rightarrow> (Some e, s1\<lparr>out := out s1 @ evs\<rparr>)
                | (evs, Inr p) \<Rightarrow>
                    (None, s1\<lparr>out := out s1 @ evs,
                              heap := set_found_file_path r p (heap s1)\<rparr>)))"

fun scan_files ::
  "string set \<Rightarrow> ref \<Rightarrow> int \<Rightarrow> path \<Rightarrow> string list \<Rightarrow> scan_state \<Rightarrow> exc option \<times> scan_state" where
  "scan_files ftf images msi current_dir [] s = (None, s)"
| "scan_files ftf images msi current_dir (f # files) s =
     (case scan_file ftf images msi current_dir f s of
        (Some e, s') \<Rightarrow> (Some e, s')
      | (None, s') \<Rightarrow> scan_files ftf images msi current_dir files s')"

fun scan_dirs ::
  "string set \<Rightarrow> ref \<Rightarrow> int \<Rightarrow> (path \<times> string list) list \<Rightarrow> scan_state \<Rightarrow> exc option \<times> scan_state" where
  "scan_dirs ftf images msi [] s = (None, s)"
| "scan_dirs ftf images msi ((current_dir, files) # rest) s =
     (case scan_files ftf images msi current_dir files s of
        (Some e, s') \<Rightarrow> (Some e, s')
      | (None, s') \<Rightarrow> scan_dirs ftf images msi rest s')"

text \<open>The two local constants of the function: the pruned names and the type filter.\<close>

definition ignore_dirs :: "string set" where
  "ignore_dirs = {''CaptureOne''}"

definition file_type_filter :: "bool \<Rightarrow> string set" where
  "file_type_filter ignore_jpg =
     (if ignore_jpg then ALL_AVAILABLE_TYPES - JPG_TYPES else ALL_AVAILABLE_TYPES)"

text \<open>
  The function takes the directory tree found at \<^verbatim>\<open>search_dir\<close> and the store.  It
  gives the exception raised or the reference returned, with the final counter,
  store and output.
\<close>

definition find_matching_files ::
  "fsdir \<Rightarrow> path \<Rightarrow> ref \<Rightarrow> bool \<Rightarrow> int \<Rightarrow> store \<Rightarrow> (exc + ref) \<times> scan_state" where
  "find_matching_files tree search_dir images ignore_jpg max_scan_items h =
     (case scan_dirs (file_type_filter ignore_jpg) images max_scan_items
             (walk ignore_dirs search_dir tree) \<lparr>scanned = 0, heap = h, out = []\<rparr> of
        (Some e, s) \<Rightarrow> (Inl e, s)
      | (None, s) \<Rightarrow> (Inr images, s))"

section \<open>Vocabulary of the specification\<close>

text \<open>The three classes of file types, read off the three extension sets.\<close>

datatype file_class = XMP | RAW | RASTER

definition class_of_ext :: "string \<Rightarrow> file_class option" where
  "class_of_ext ext =
     (if ext \<in> XMP_TYPES then Some XMP
      else if ext \<in> RAW_TYPES then Some RAW
      else if ext \<in> JPG_TYPES then Some RASTER
      else None)"

definition class_of :: "path \<Rightarrow> file_class option" where
  "class_of p = class_of_ext (lower (suffix p))"

text \<open>
  \<^verbatim>\<open>ValueError\<close> and \<^verbatim>\<open>KeyError\<close> are ordinary exceptions that propagate to the
  caller; \<^verbatim>\<open>SystemExit\<close> ends the process with the given status.
\<close>

definition is_internal_error :: "exc \<Rightarrow> bool" where
  "is_internal_error e =
     (case e of ValueError _ \<Rightarrow> True | KeyError _ \<Rightarrow> True | SystemExit _ \<Rightarrow> False)"

text \<open>
  The files of a walk in the order in which the nested loops visit them, each with
  the directory it is in; \<open>visited\<close> are the files the scan would visit if nothing
  stopped it.
\<close>

definition flatten_walk :: "(path \<times> string list) list \<Rightarrow> (path \<times> string) list" where
  "flatten_walk dirs = concat (map (\<lambda>(d, files). map (Pair d) files) dirs)"

definition visited :: "fsdir \<Rightarrow> path \<Rightarrow> (path \<times> string) list" where
  "visited tree search_dir = flatten_walk (walk ignore_dirs search_dir tree)"

text \<open>The nested loops as one loop over the flattened walk.\<close>

fun scan_flat ::
  "string set \<Rightarrow> ref \<Rightarrow> int \<Rightarrow> (path \<times> string) list \<Rightarrow> scan_state \<Rightarrow> exc option \<times> scan_state" where
  "scan_flat ftf images msi [] s = (None, s)"
| "scan_flat ftf images msi ((d, f) # rest) s =
     (case scan_file ftf images msi d f s of
        (Some e, s') \<Rightarrow> (Some e, s')
      | (None, s') \<Rightarrow> scan_flat ftf images msi rest s')"

text \<open>
  The candidates among some visited files: the paths of the files that pass the type
  filter and whose stem satisfies \<open>want\<close>, in the order of the visit.  The
  candidates observed for a stem are those whose stem is equal to it.
\<close>

definition candidate_paths ::
  "string set \<Rightarrow> (string \<Rightarrow> bool) \<Rightarrow> (path \<times> string) list \<Rightarrow> path list" where
  "candidate_paths ftf want xs =
     map (\<lambda>(d, f). joinpath d (name (Path_of f)))
       (filter (\<lambda>(d, f). lower (suffix (Path_of f)) \<in> ftf \<and> want (stem (Path_of f))) xs)"

definition observed :: "fsdir \<Rightarrow> path \<Rightarrow> bool \<Rightarrow> string \<Rightarrow> path list" where
  "observed tree search_dir ignore_jpg st =
     candidate_paths (file_type_filter ignore_jpg) (\<lambda>k. k = st) (visited tree search_dir)"

text \<open>The resolver applied to a list of candidates in turn, stopping at an exception.\<close>

fun resolve_all :: "path option \<Rightarrow> path list \<Rightarrow> exc + path option" where
  "resolve_all cur [] = Inr cur"
| "resolve_all cur (p # ps) =
     (case snd (select_preferred_path cur p) of
        Inl e \<Rightarrow> Inl e
      | Inr v \<Rightarrow> resolve_all v ps)"

text \<open>
  The record of a stem: the mapping binds the stem to the object, and no other stem
  to the same object (the table holds one record per stem).
\<close>

definition record_of :: "store \<Rightarrow> ref \<Rightarrow> string \<Rightarrow> ref \<Rightarrow> bool" where
  "record_of h images st a \<longleftrightarrow>
     dicts h images st = Some a \<and> (\<forall>k. dicts h images k = Some a \<longrightarrow> k = st)"

abbreviation resolved_path :: "scan_state \<Rightarrow> ref \<Rightarrow> path option" where
  "resolved_path s a \<equiv> found_file_path (objects (heap s) a)"

text \<open>A directory tree without its subdirectories of the reserved name, at every depth.\<close>

fun prune :: "fsdir \<Rightarrow> fsdir"
  and prune_subdirs :: "(string \<times> fsdir) list \<Rightarrow> (string \<times> fsdir) list"
where
  "prune (Dir files subdirs) = Dir files (prune_subdirs subdirs)"
| "prune_subdirs [] = []"
| "prune_subdirs ((d, sub) # rest) =
     (if d = ''CaptureOne'' then prune_subdirs rest else (d, prune sub) # prune_subdirs rest)"

section \<open>Example data\<close>

text \<open>
  The table of the test suite, with the mapping object at reference \<open>0\<close> and its
  three records at \<open>1\<close>, \<open>2\<close> and \<open>3\<close>, and two directory trees: a session
  folder with a reserved subdirectory, and a folder where a rendered image and a
  raw file share a stem.
\<close>

definition example_image :: "int \<Rightarrow> path \<Rightarrow> string \<Rightarrow> Image" where
  "example_image n p d =
     \<lparr>line_no = n, input_file_path = p, input_desc = d, found_file_path = None\<rparr>"

definition example_store :: store where
  "example_store =
     \<lparr>dicts = (\<lambda>_. Map.empty)(0 := [''IMG_0001'' \<mapsto> 1, ''IMG_0002'' \<mapsto> 2, ''IMG_0003'' \<mapsto> 3]),
      objects = (\<lambda>_. example_image 0 [] [])
        (1 := example_image 1 [''IMG_0001.ARW''] ''Description for 01 arw'',
         2 := example_image 2 [''IMG_0002.JPG''] ''Description for 02 jpg'',
         3 := example_image 1 [''IMG_0003.HEIC''] ''Description for 03 heic'')\<rparr>"

definition example_tree :: fsdir where
  "example_tree =
     Dir [''title-image-IMG_0001.JPG'']
       [(''Selects'',
         Dir [''IMG_0001.ARW'', ''IMG_0001.XMP'', ''IMG_0002.JPG'', ''img_0003.heic'', ''notes.txt'']
           [(''CaptureOne'', Dir [''IMG_0001.JPG'', ''IMG_0003.HEIC''] [])])]"

definition example_conflict_tree :: fsdir where
  "example_conflict_tree =
     Dir [''IMG_0001.ARW'', ''IMG_0002.JPG'', ''IMG_0002.ARW'', ''IMG_0003.HEIC''] []"

section \<open>The extension classes and the priority table\<close>

lemma types_disjoint:
  "XMP_TYPES \<inter> RAW_TYPES = {}" "XMP_TYPES \<inter> JPG_TYPES = {}" "RAW_TYPES \<inter> JPG_TYPES = {}"
  by (simp_all add: XMP_TYPES_def RAW_TYPES_def JPG_TYPES_def)

lemma class_of_ext_None: "class_of_ext e = None \<longleftrightarrow> e \<notin> ALL_AVAILABLE_TYPES"
  by (simp add: class_of_ext_def ALL_AVAILABLE_TYPES_def)

lemma class_of_ext_RASTER: "class_of_ext e = Some RASTER \<longleftrightarrow> e \<in> JPG_TYPES"
  using types_disjoint by (auto simp: class_of_ext_def)

lemma class_of_avail: "lower (suffix n) \<in> ALL_AVAILABLE_TYPES \<longleftrightarrow> class_of n \<noteq> None"
  by (simp add: class_of_def class_of_ext_None)

lemma TYPE_PRIORITIES_class:
  "TYPE_PRIORITIES e =
     (case class_of_ext e of
        None \<Rightarrow> None
      | Some XMP \<Rightarrow> Some 3 | Some RAW \<Rightarrow> Some 2 | Some RASTER \<Rightarrow> Some 1)"
  using types_disjoint by (auto simp: TYPE_PRIORITIES_def class_of_ext_def map_add_def)

lemma priority_of_class:
  "priority_of p =
     (case class_of p of
        None \<Rightarrow> Inl (KeyError (lower (suffix p)))
      | Some XMP \<Rightarrow> Inr 3 | Some RAW \<Rightarrow> Inr 2 | Some RASTER \<Rightarrow> Inr 1)"
  by (simp add: priority_of_def class_of_def TYPE_PRIORITIES_class
        split: option.splits file_class.splits)

lemma same_rank_check_Some:
  "same_rank_check (Some c) n =
     (if class_of c \<noteq> None \<and> class_of c = class_of n
      then Some (ValueError (Same_rank c n)) else None)"
  using types_disjoint
  by (auto simp: same_rank_check_def class_of_def class_of_ext_def)

section \<open>The resolver, case by case\<close>

lemma select_unavailable:
  "class_of n = None \<Longrightarrow>
   select_preferred_path cur n = ([], Inl (ValueError (Unavailable_file_type n)))"
  by (simp add: select_preferred_path_def class_of_avail)

lemma select_first:
  "class_of n \<noteq> None \<Longrightarrow>
   select_preferred_path None n = ([Found (stem n) n], Inr (Some n))"
  by (auto simp: select_preferred_path_def class_of_avail cur_priority_of_def
        same_rank_check_def priority_of_class split: option.splits file_class.splits)

lemma select_Some:
  assumes "class_of n = Some b"
  shows "select_preferred_path (Some c) n =
     (case class_of c of
        None \<Rightarrow> ([], Inl (KeyError (lower (suffix c))))
      | Some a \<Rightarrow>
          if a = b then ([], Inl (ValueError (Same_rank c n)))
          else if a = RASTER \<or> b = RASTER
          then ([Err_ambiguous (stem n) (Some c) n], Inl (SystemExit 1))
          else if b = XMP then ([Updating (stem n) n], Inr (Some n))
          else ([], Inr (Some c)))"
  using assms
  by (cases b; cases "class_of c")
     (auto simp: select_preferred_path_def class_of_avail same_rank_check_Some
        cur_priority_of_def priority_of_class
        split: option.splits file_class.splits)

section \<open>The loops\<close>

lemma scan_flat_append:
  "scan_flat ftf images msi (xs @ ys) s =
     (case scan_flat ftf images msi xs s of
        (Some e, s') \<Rightarrow> (Some e, s')
      | (None, s') \<Rightarrow> scan_flat ftf images msi ys s')"
  by (induction xs arbitrary: s) (auto split: prod.splits option.splits)

lemma scan_files_flat:
  "scan_files ftf images msi d files s = scan_flat ftf images msi (map (Pair d) files) s"
  by (induction files arbitrary: s) (auto split: prod.splits option.splits)

lemma scan_dirs_flat:
  "scan_dirs ftf images msi dirs s = scan_flat ftf images msi (flatten_walk dirs) s"
proof (induction dirs arbitrary: s)
  case Nil
  show ?case by (simp add: flatten_walk_def)
next
  case (Cons x dirs)
  obtain d files where x: "x = (d, files)" by (cases x)
  have "flatten_walk (x # dirs) = map (Pair d) files @ flatten_walk dirs"
    by (simp add: flatten_walk_def x)
  with Cons show ?case
    by (simp add: x scan_flat_append scan_files_flat split: prod.splits option.splits)
qed

lemma find_matching_files_flat:
  "find_matching_files tree search_dir images ignore_jpg msi h =
     (case scan_flat (file_type_filter ignore_jpg) images msi (visited tree search_dir)
             \<lparr>scanned = 0, heap = h, out = []\<rparr> of
        (Some e, s) \<Rightarrow> (Inl e, s)
      | (None, s) \<Rightarrow> (Inr images, s))"
  by (simp add: find_matching_files_def visited_def scan_dirs_flat)

lemma scan_file_abort:
  "msi < scanned s + 1 \<Longrightarrow>
   scan_file ftf images msi d f s =
     (Some (SystemExit 1), s\<lparr>scanned := scanned s + 1, out := out s @ [Err_aborted msi]\<rparr>)"
  by (simp add: scan_file_def Let_def)

lemma scan_file_skip_type:
  "scanned s + 1 \<le> msi \<Longrightarrow> lower (suffix (Path_of f)) \<notin> ftf \<Longrightarrow>
   scan_file ftf images msi d f s =
     (None, s\<lparr>scanned := scanned s + 1, out := out s @ [Skipping (Path_of f)]\<rparr>)"
  by (simp add: scan_file_def Let_def)

lemma scan_file_skip_stem:
  "scanned s + 1 \<le> msi \<Longrightarrow> lower (suffix (Path_of f)) \<in> ftf \<Longrightarrow>
   dicts (heap s) images (stem (Path_of f)) = None \<Longrightarrow>
   scan_file ftf images msi d f s = (None, s\<lparr>scanned := scanned s + 1\<rparr>)"
  by (simp add: scan_file_def Let_def)

lemma scan_file_match:
  "scanned s + 1 \<le> msi \<Longrightarrow> lower (suffix (Path_of f)) \<in> ftf \<Longrightarrow>
   dicts (heap s) images (stem (Path_of f)) = Some r \<Longrightarrow>
   scan_file ftf images msi d f s =
     (case select_preferred_path (resolved_path s r) (joinpath d (name (Path_of f))) of
        (evs, Inl e) \<Rightarrow> (Some e, s\<lparr>scanned := scanned s + 1, out := out s @ evs\<rparr>)
      | (evs, Inr p) \<Rightarrow>
          (None, s\<lparr>scanned := scanned s + 1, out := out s @ evs,
                   heap := set_found_file_path r p (heap s)\<rparr>))"
  by (simp add: scan_file_def Let_def split: prod.splits sum.splits)

lemma scan_file_cases:
  obtains
    (abort) "msi < scanned s + 1"
  | (skip_type) "scanned s + 1 \<le> msi" "lower (suffix (Path_of f)) \<notin> ftf"
  | (skip_stem) "scanned s + 1 \<le> msi" "lower (suffix (Path_of f)) \<in> ftf"
      "dicts (heap s) images (stem (Path_of f)) = None"
  | (match) r where "scanned s + 1 \<le> msi" "lower (suffix (Path_of f)) \<in> ftf"
      "dicts (heap s) images (stem (Path_of f)) = Some r"
  by (cases "dicts (heap s) images (stem (Path_of f))") force+

lemma scan_file_frame:
  assumes "scan_file ftf images msi d f s = (r, s')"
  shows "scanned s' = scanned s + 1"
    and "dicts (heap s') = dicts (heap s)"
    and "\<exists>evs. out s' = out s @ evs"
    and "objects (heap s') a = (objects (heap s) a)\<lparr>found_file_path := resolved_path s' a\<rparr>"
proof -
  show "scanned s' = scanned s + 1"
    using assms
    by (cases rule: scan_file_cases[where msi=msi and s=s and f=f and ftf=ftf and images=images])
       (auto simp: scan_file_abort scan_file_skip_type scan_file_skip_stem scan_file_match
          split: prod.splits sum.splits)
  show "dicts (heap s') = dicts (heap s)"
    using assms
    by (cases rule: scan_file_cases[where msi=msi and s=s and f=f and ftf=ftf and images=images])
       (auto simp: scan_file_abort scan_file_skip_type scan_file_skip_stem scan_file_match
          set_found_file_path_def split: prod.splits sum.splits)
  show "\<exists>evs. out s' = out s @ evs"
    using assms
    by (cases rule: scan_file_cases[where msi=msi and s=s and f=f and ftf=ftf and images=images])
       (auto simp: scan_file_abort scan_file_skip_type scan_file_skip_stem scan_file_match
          split: prod.splits sum.splits)
  show "objects (heap s') a = (objects (heap s) a)\<lparr>found_file_path := resolved_path s' a\<rparr>"
    using assms
    by (cases rule: scan_file_cases[where msi=msi and s=s and f=f and ftf=ftf and images=images])
       (auto simp: scan_file_abort scan_file_skip_type scan_file_skip_stem scan_file_match
          set_found_file_path_def split: prod.splits sum.splits)
qed


lemma scan_flat_frame:
  assumes "scan_flat ftf images msi xs s = (r, s')"
  shows "dicts (heap s') = dicts (heap s)
         \<and> (\<exists>evs. out s' = out s @ evs)
         \<and> (\<forall>a. objects (heap s') a = (objects (heap s) a)\<lparr>found_file_path := resolved_path s' a\<rparr>)"
  using assms
proof (induction xs arbitrary: s)
  case Nil
  then show ?case by simp
next
  case (Cons x xs)
  obtain d f where x: "x = (d, f)" by (cases x)
  obtain r1 s1 where step: "scan_file ftf images msi d f s = (r1, s1)" by force
  note fr = scan_file_frame [OF step]
  show ?case
  proof (cases r1)
    case None
    with Cons.prems step x have "scan_flat ftf images msi xs s1 = (r, s')" by simp
    from Cons.IH [OF this] fr(2) fr(3) fr(4) show ?thesis
      by (metis (no_types, lifting) Image.surjective Image.update_convs(4) append.assoc)
  next
    case (Some e)
    with Cons.prems step x have "s' = s1" by simp
    with fr show ?thesis by blast
  qed
qed

lemma name_joinpath [simp]: "name (joinpath d n) = n"
  by (simp add: name_def joinpath_def)

lemma name_Path_of [simp]: "name (Path_of f) = f"
  by (simp add: name_def Path_of_def)

lemma suffix_joinpath [simp]: "suffix (joinpath d f) = suffix (Path_of f)"
  by (simp add: suffix_def)

lemma stem_joinpath [simp]: "stem (joinpath d f) = stem (Path_of f)"
  by (simp add: stem_def)

lemma select_returns:
  assumes "snd (select_preferred_path cur n) = Inr v"
  shows "class_of n \<noteq> None \<and> (v = Some n \<or> v = cur)"
proof (cases "class_of n")
  case None
  with assms show ?thesis by (simp add: select_unavailable)
next
  case (Some b)
  with assms show ?thesis
    by (cases cur) (auto simp: select_first select_Some split: option.splits if_splits)
qed

lemma candidate_paths_Cons:
  "candidate_paths ftf want ((d, f) # xs) =
     (if lower (suffix (Path_of f)) \<in> ftf \<and> want (stem (Path_of f))
      then joinpath d (name (Path_of f)) # candidate_paths ftf want xs
      else candidate_paths ftf want xs)"
  by (simp add: candidate_paths_def)

lemma candidate_paths_Nil [simp]: "candidate_paths ftf want [] = []"
  by (simp add: candidate_paths_def)

lemma scan_file_resolved:
  assumes "scan_file ftf images msi d f s = (r, s')"
  shows "if r = None \<and> lower (suffix (Path_of f)) \<in> ftf
            \<and> dicts (heap s) images (stem (Path_of f)) = Some a
         then snd (select_preferred_path (resolved_path s a) (joinpath d (name (Path_of f))))
                = Inr (resolved_path s' a)
         else resolved_path s' a = resolved_path s a"
  using assms
  by (cases rule: scan_file_cases[where msi=msi and s=s and f=f and ftf=ftf and images=images])
     (auto simp: scan_file_abort scan_file_skip_type scan_file_skip_stem scan_file_match
        set_found_file_path_def split: prod.splits sum.splits)

lemma scan_flat_resolve:
  assumes "scan_flat ftf images msi xs s = (None, s')"
  shows "resolve_all (resolved_path s a)
           (candidate_paths ftf (\<lambda>k. dicts (heap s) images k = Some a) xs)
         = Inr (resolved_path s' a)"
  using assms
proof (induction xs arbitrary: s)
  case Nil
  then show ?case by simp
next
  case (Cons x xs)
  obtain d f where x: "x = (d, f)" by (cases x)
  obtain r1 s1 where step: "scan_file ftf images msi d f s = (r1, s1)" by force
  with Cons.prems x have r1: "r1 = None" and rest: "scan_flat ftf images msi xs s1 = (None, s')"
    by (auto split: option.splits)
  have d: "dicts (heap s1) = dicts (heap s)" by (rule scan_file_frame(2) [OF step])
  from Cons.IH [OF rest] scan_file_resolved [OF step, of a] r1 d show ?case
    by (auto simp: x candidate_paths_Cons split: if_splits)
qed

lemma scan_flat_origin:
  assumes "scan_flat ftf images msi xs s = (r, s')"
  shows "resolved_path s' a = resolved_path s a
         \<or> (\<exists>p \<in> set (candidate_paths ftf (\<lambda>k. dicts (heap s) images k = Some a) xs).
               resolved_path s' a = Some p)"
  using assms
proof (induction xs arbitrary: s)
  case Nil
  then show ?case by simp
next
  case (Cons x xs)
  obtain d f where x: "x = (d, f)" by (cases x)
  obtain r1 s1 where step: "scan_file ftf images msi d f s = (r1, s1)" by force
  have d: "dicts (heap s1) = dicts (heap s)" by (rule scan_file_frame(2) [OF step])
  have one: "resolved_path s1 a = resolved_path s a
             \<or> (lower (suffix (Path_of f)) \<in> ftf \<and> dicts (heap s) images (stem (Path_of f)) = Some a
                 \<and> resolved_path s1 a = Some (joinpath d (name (Path_of f))))"
    using scan_file_resolved [OF step, of a]
    by (auto split: if_splits dest: select_returns)
  show ?case
  proof (cases r1)
    case (Some e)
    with Cons.prems step x have "s' = s1" by simp
    with one show ?thesis by (auto simp: x candidate_paths_Cons)
  next
    case None
    with Cons.prems step x have "scan_flat ftf images msi xs s1 = (r, s')" by simp
    from Cons.IH [OF this] one d show ?thesis
      by (auto simp: x candidate_paths_Cons)
  qed
qed

lemma candidate_paths_record_of:
  "record_of h images st a \<Longrightarrow>
   candidate_paths ftf (\<lambda>k. dicts h images k = Some a) xs = candidate_paths ftf (\<lambda>k. k = st) xs"
  unfolding candidate_paths_def record_of_def
  by (rule arg_cong [where f = "map _"], rule filter_cong) auto

lemma candidate_paths_props:
  "p \<in> set (candidate_paths ftf want xs) \<Longrightarrow>
   lower (suffix p) \<in> ftf \<and> want (stem p) \<and> (\<exists>d f. (d, f) \<in> set xs \<and> p = joinpath d f)"
  by (auto simp: candidate_paths_def)

lemma scan_flat_counter:
  assumes "scan_flat ftf images msi xs s = (r, s')"
  shows "(r = None \<longrightarrow> scanned s' = scanned s + int (length xs) \<and> (xs \<noteq> [] \<longrightarrow> scanned s' \<le> msi))
       \<and> (scanned s \<le> msi \<longrightarrow> msi < scanned s' \<longrightarrow>
            r = Some (SystemExit 1) \<and> scanned s' = msi + 1
            \<and> (\<exists>evs. out s' = evs @ [Err_aborted msi]))
       \<and> (scanned s \<le> msi \<longrightarrow> msi < scanned s + int (length xs) \<longrightarrow> r \<noteq> None)"
  using assms
proof (induction xs arbitrary: s)
  case Nil
  then show ?case by auto
next
  case (Cons x xs)
  obtain d f where x: "x = (d, f)" by (cases x)
  show ?case
  proof (cases "msi < scanned s + 1")
    case True
    with Cons.prems show ?thesis by (auto simp: x scan_file_abort)
  next
    case False
    obtain r1 s1 where step: "scan_file ftf images msi d f s = (r1, s1)" by force
    have c: "scanned s1 = scanned s + 1" by (rule scan_file_frame(1) [OF step])
    show ?thesis
    proof (cases r1)
      case (Some e)
      with Cons.prems step x have "s' = s1" "r = Some e" by simp_all
      with c False show ?thesis by auto
    next
      case None
      with Cons.prems step x have "scan_flat ftf images msi xs s1 = (r, s')" by simp
      from Cons.IH [OF this] c False show ?thesis by (cases xs) auto
    qed
  qed
qed

lemma scan_flat_take:
  "scan_flat ftf images msi xs s = scan_flat ftf images msi (take (nat (msi - scanned s) + 1) xs) s"
proof (induction xs arbitrary: s)
  case Nil
  show ?case by simp
next
  case (Cons x xs)
  obtain d f where x: "x = (d, f)" by (cases x)
  show ?case
  proof (cases "msi < scanned s + 1")
    case True
    then show ?thesis by (simp add: x scan_file_abort)
  next
    case False
    obtain r1 s1 where step: "scan_file ftf images msi d f s = (r1, s1)" by force
    have c: "scanned s1 = scanned s + 1" by (rule scan_file_frame(1) [OF step])
    with False have n: "nat (msi - scanned s) = Suc (nat (msi - scanned s1))" by simp
    show ?thesis
      using Cons.IH [of s1] step by (simp add: x n split: option.splits)
  qed
qed

lemma scan_resolve_record:
  assumes "fst (find_matching_files tree sd images ij msi h) = Inr ref"
    and "record_of h images st a"
  shows "resolve_all (found_file_path (objects h a)) (observed tree sd ij st)
         = Inr (resolved_path (snd (find_matching_files tree sd images ij msi h)) a)"
proof -
  let ?s0 = "\<lparr>scanned = 0, heap = h, out = []\<rparr>"
  obtain r s' where run: "scan_flat (file_type_filter ij) images msi (visited tree sd) ?s0 = (r, s')"
    by force
  with assms(1) have r: "r = None" and s': "snd (find_matching_files tree sd images ij msi h) = s'"
    by (auto simp: find_matching_files_flat split: option.splits)
  from scan_flat_resolve [OF run [unfolded r], of a] s' show ?thesis
    by (simp add: observed_def candidate_paths_record_of [OF assms(2)])
qed

lemma scan_origin_record:
  assumes "record_of h images st a"
  shows "resolved_path (snd (find_matching_files tree sd images ij msi h)) a = found_file_path (objects h a)
         \<or> (\<exists>p \<in> set (observed tree sd ij st).
               resolved_path (snd (find_matching_files tree sd images ij msi h)) a = Some p)"
proof -
  let ?s0 = "\<lparr>scanned = 0, heap = h, out = []\<rparr>"
  obtain r s' where run: "scan_flat (file_type_filter ij) images msi (visited tree sd) ?s0 = (r, s')"
    by force
  then have s': "snd (find_matching_files tree sd images ij msi h) = s'"
    by (auto simp: find_matching_files_flat split: option.splits)
  from scan_flat_origin [OF run, of a] s' show ?thesis
    by (simp add: observed_def candidate_paths_record_of [OF assms])
qed

lemma find_matching_files_run:
  obtains r s' where
    "scan_flat (file_type_filter ij) images msi (visited tree sd) \<lparr>scanned = 0, heap = h, out = []\<rparr> = (r, s')"
    "snd (find_matching_files tree sd images ij msi h) = s'"
    "fst (find_matching_files tree sd images ij msi h) = (case r of None \<Rightarrow> Inr images | Some e \<Rightarrow> Inl e)"
proof -
  obtain r s' where run:
    "scan_flat (file_type_filter ij) images msi (visited tree sd) \<lparr>scanned = 0, heap = h, out = []\<rparr> = (r, s')"
    by force
  then have "snd (find_matching_files tree sd images ij msi h) = s'"
    and "fst (find_matching_files tree sd images ij msi h) = (case r of None \<Rightarrow> Inr images | Some e \<Rightarrow> Inl e)"
    by (auto simp: find_matching_files_flat split: option.splits)
  with run that show thesis by blast
qed

lemma candidate_paths_foreign:
  "a \<notin> ran m \<Longrightarrow> candidate_paths ftf (\<lambda>k. m k = Some a) xs = []"
  by (auto simp: candidate_paths_def ran_def)

lemma walk_prune:
  "walk ignore_dirs cdir (prune t) = walk ignore_dirs cdir t"
  "walk_subdirs ignore_dirs cdir (prune_subdirs subs) = walk_subdirs ignore_dirs cdir subs"
  by (induction ignore_dirs cdir t and ignore_dirs cdir subs rule: walk_walk_subdirs.induct)
     (auto simp: ignore_dirs_def)

lemma walk_below:
  "(d, fs) \<in> set (walk ign cdir t) \<Longrightarrow> \<exists>rel. d = cdir @ rel \<and> set rel \<inter> ign = {}"
  "(d, fs) \<in> set (walk_subdirs ign cdir subs) \<Longrightarrow> \<exists>rel. d = cdir @ rel \<and> set rel \<inter> ign = {}"
proof (induction ign cdir t and ign cdir subs rule: walk_walk_subdirs.induct)
  case (1 ign cdir files subdirs)
  then show ?case by auto
next
  case (2 ign cdir)
  then show ?case by simp
next
  case (3 ign cdir n sub rest)
  from "3.prems" consider
      (here) "n \<notin> ign" "(d, fs) \<in> set (walk ign (joinpath cdir n) sub)"
    | (later) "(d, fs) \<in> set (walk_subdirs ign cdir rest)"
    by (auto split: if_splits)
  then show ?case
  proof cases
    case here
    with "3.IH"(1) obtain rel where "d = joinpath cdir n @ rel" "set rel \<inter> ign = {}" by blast
    with here(1) have "d = cdir @ (n # rel) \<and> set (n # rel) \<inter> ign = {}"
      by (simp add: joinpath_def)
    then show ?thesis by blast
  next
    case later
    with "3.IH"(2) show ?thesis by blast
  qed
qed

lemma rfind_from_append:
  "rfind_from c (xs @ ys) i found = rfind_from c ys (i + int (length xs)) (rfind_from c xs i found)"
  by (induction xs arbitrary: i found) (simp_all add: add.assoc)

lemma rfind_from_absent: "c \<notin> set xs \<Longrightarrow> rfind_from c xs i found = found"
  by (induction xs arbitrary: i) auto

lemma rfind_extension:
  "CHR ''.'' \<notin> set e \<Longrightarrow> rfind CHR ''.'' (b @ CHR ''.'' # e) = int (length b)"
  by (simp add: rfind_def rfind_from_append rfind_from_absent)

lemma suffix_stem_extension:
  assumes "b \<noteq> []" and "e \<noteq> []" and "CHR ''.'' \<notin> set e"
  shows "suffix (Path_of (b @ CHR ''.'' # e)) = CHR ''.'' # e"
    and "stem (Path_of (b @ CHR ''.'' # e)) = b"
  using assms by (simp_all add: suffix_def stem_def rfind_extension)

lemma lower_dot: "lower (CHR ''.'' # e) = CHR ''.'' # lower e"
  by (simp add: lower_def lower_char_def)

lemma scan_flat_over:
  "msi < scanned s \<Longrightarrow>
   scan_flat ftf images msi ((d, f) # xs) s =
     (Some (SystemExit 1), s\<lparr>scanned := scanned s + 1, out := out s @ [Err_aborted msi]\<rparr>)"
  by (simp add: scan_file_abort)

lemma find_matching_files_counter:
  fixes tree sd images ij msi h
  defines "R \<equiv> find_matching_files tree sd images ij msi h"
  defines "n \<equiv> int (length (visited tree sd))"
  shows "fst R = Inr ref \<Longrightarrow> scanned (snd R) = n \<and> (visited tree sd \<noteq> [] \<longrightarrow> n \<le> msi)"
    and "visited tree sd \<noteq> [] \<Longrightarrow> msi < n \<Longrightarrow> \<exists>e. fst R = Inl e"
    and "0 < scanned (snd R) \<Longrightarrow> msi < scanned (snd R) \<Longrightarrow>
           fst R = Inl (SystemExit 1) \<and> scanned (snd R) = max 0 msi + 1
           \<and> (\<exists>evs. out (snd R) = evs @ [Err_aborted msi])"
proof -
  let ?s0 = "\<lparr>scanned = 0, heap = h, out = []\<rparr>"
  obtain r s' where run: "scan_flat (file_type_filter ij) images msi (visited tree sd) ?s0 = (r, s')"
    and s': "snd R = s'"
    and r: "fst R = (case r of None \<Rightarrow> Inr images | Some e \<Rightarrow> Inl e)"
    unfolding R_def by (rule find_matching_files_run)
  have all: "(fst R = Inr ref \<longrightarrow> scanned (snd R) = n \<and> (visited tree sd \<noteq> [] \<longrightarrow> n \<le> msi))
      \<and> (visited tree sd \<noteq> [] \<longrightarrow> msi < n \<longrightarrow> (\<exists>e. fst R = Inl e))
      \<and> (0 < scanned (snd R) \<longrightarrow> msi < scanned (snd R) \<longrightarrow>
           fst R = Inl (SystemExit 1) \<and> scanned (snd R) = max 0 msi + 1
           \<and> (\<exists>evs. out (snd R) = evs @ [Err_aborted msi]))"
  proof (cases "0 \<le> msi")
    case True
    then have m: "max 0 msi = msi" by simp
    from scan_flat_counter [OF run] True
    have a: "r = None \<longrightarrow> scanned s' = n \<and> (visited tree sd \<noteq> [] \<longrightarrow> scanned s' \<le> msi)"
      and b: "msi < scanned s' \<longrightarrow> r = Some (SystemExit 1) \<and> scanned s' = msi + 1
            \<and> (\<exists>evs. out s' = evs @ [Err_aborted msi])"
      and c: "msi < n \<longrightarrow> r \<noteq> None"
      by (auto simp: n_def)
    from a r s' have 1: "fst R = Inr ref \<longrightarrow> scanned (snd R) = n \<and> (visited tree sd \<noteq> [] \<longrightarrow> n \<le> msi)"
      by (cases r) auto
    from c r have 2: "visited tree sd \<noteq> [] \<longrightarrow> msi < n \<longrightarrow> (\<exists>e. fst R = Inl e)"
      by (cases r) auto
    from b r s' have 3: "0 < scanned (snd R) \<longrightarrow> msi < scanned (snd R) \<longrightarrow>
           fst R = Inl (SystemExit 1) \<and> scanned (snd R) = max 0 msi + 1
           \<and> (\<exists>evs. out (snd R) = evs @ [Err_aborted msi])"
      unfolding m by (cases r) auto
    from 1 2 3 show ?thesis by blast
  next
    case False
    then have neg: "msi < scanned ?s0" and m: "max 0 msi = 0" by simp_all
    show ?thesis
    proof (cases "visited tree sd")
      case Nil
      with run have "r = None" "s' = ?s0" by simp_all
      with r s' Nil show ?thesis by (simp add: n_def)
    next
      case (Cons x xs)
      obtain d f where x: "x = (d, f)" by (cases x)
      from run have "r = Some (SystemExit 1)"
        and "s' = ?s0\<lparr>scanned := scanned ?s0 + 1, out := out ?s0 @ [Err_aborted msi]\<rparr>"
        unfolding Cons x scan_flat_over [OF neg] by simp_all
      with r s' m show ?thesis by simp
    qed
  qed
  from all show "fst R = Inr ref \<Longrightarrow> scanned (snd R) = n \<and> (visited tree sd \<noteq> [] \<longrightarrow> n \<le> msi)"
    and "visited tree sd \<noteq> [] \<Longrightarrow> msi < n \<Longrightarrow> \<exists>e. fst R = Inl e"
    and "0 < scanned (snd R) \<Longrightarrow> msi < scanned (snd R) \<Longrightarrow>
           fst R = Inl (SystemExit 1) \<and> scanned (snd R) = max 0 msi + 1
           \<and> (\<exists>evs. out (snd R) = evs @ [Err_aborted msi])"
    by blast+
qed

section \<open>Claims about select_preferred_path\<close>

text \<open>
  C2.  When the current selection and the candidate for a stem are one file of the
  raster class and one of the raw or sidecar class, in either role, the resolver
  writes the message that names the stem and both paths, and ends the process with
  \<^verbatim>\<open>SystemExit(1)\<close>: a non-zero exit status, and not one of the exceptions that signal
  an internal error (the \<^verbatim>\<open>ValueError\<close> of a same-rank duplicate among them).
\<close>

theorem select_preferred_path_raster_conflict:
  assumes "class_of cur = Some a" and "class_of new = Some b"
    and "a = RASTER \<and> b \<in> {RAW, XMP} \<or> b = RASTER \<and> a \<in> {RAW, XMP}"
  shows "select_preferred_path (Some cur) new =
           ([Err_ambiguous (stem new) (Some cur) new], Inl (SystemExit 1))
         \<and> \<not> is_internal_error (SystemExit 1) \<and> (1::int) \<noteq> 0"
  using assms by (auto simp: select_Some is_internal_error_def)

theorem select_preferred_path_raster_conflict_witness:
  "class_of [''Selects'', ''IMG_0001.JPG''] = Some RASTER
   \<and> class_of [''Selects'', ''IMG_0001.ARW''] = Some RAW
   \<and> select_preferred_path (Some [''Selects'', ''IMG_0001.JPG'']) [''Selects'', ''IMG_0001.ARW'']
       = ([Err_ambiguous ''IMG_0001'' (Some [''Selects'', ''IMG_0001.JPG''])
             [''Selects'', ''IMG_0001.ARW'']], Inl (SystemExit 1))"
proof -
  have a: "class_of [''Selects'', ''IMG_0001.JPG''] = Some RASTER" by code_simp
  have b: "class_of [''Selects'', ''IMG_0001.ARW''] = Some RAW" by code_simp
  have s: "stem [''Selects'', ''IMG_0001.ARW''] = ''IMG_0001''" by code_simp
  from select_preferred_path_raster_conflict [OF a b] a b s show ?thesis by simp
qed

text \<open>
  C3.  Provided the extension of a current selection, if there is one, is
  recognized, the resolver raises an internal error exactly when the extension of
  the candidate is in none of the three classes, or there is a current selection
  whose extension is in the same class as the candidate's.  The internal error is
  then a \<^verbatim>\<open>ValueError\<close>, never the \<^verbatim>\<open>KeyError\<close> of the priority table; so two files of
  one class never yield a result.
\<close>

theorem select_preferred_path_internal_error_iff:
  assumes "case cur_path of None \<Rightarrow> True | Some cur \<Rightarrow> class_of cur \<noteq> None"
  shows "((\<exists>e. snd (select_preferred_path cur_path new_path) = Inl e \<and> is_internal_error e)
          \<longleftrightarrow> (class_of new_path = None
               \<or> (\<exists>cur k. cur_path = Some cur \<and> class_of cur = Some k \<and> class_of new_path = Some k)))
         \<and> (\<forall>e. snd (select_preferred_path cur_path new_path) = Inl e \<and> is_internal_error e
               \<longrightarrow> (\<exists>v. e = ValueError v))"
proof (cases "class_of new_path")
  case None
  then show ?thesis by (simp add: select_unavailable is_internal_error_def)
next
  case (Some b)
  show ?thesis
  proof (cases cur_path)
    case None
    with Some show ?thesis by (simp add: select_first)
  next
    case (Some cur)
    with assms obtain a where "class_of cur = Some a" by auto
    with Some \<open>class_of new_path = Some b\<close> show ?thesis
      by (auto simp: select_Some is_internal_error_def)
  qed
qed

theorem select_preferred_path_internal_error_iff_witness:
  "class_of [''Selects'', ''IMG_0001.JPG''] \<noteq> None
   \<and> class_of [''Selects'', ''IMG_0001.JPG''] = class_of [''Selects'', ''IMG_0001.HEIC'']
   \<and> (\<exists>e. snd (select_preferred_path (Some [''Selects'', ''IMG_0001.JPG''])
               [''Selects'', ''IMG_0001.HEIC'']) = Inl e \<and> is_internal_error e)"
proof -
  have a: "class_of [''Selects'', ''IMG_0001.JPG''] = Some RASTER" by code_simp
  have b: "class_of [''Selects'', ''IMG_0001.HEIC''] = Some RASTER" by code_simp
  from select_preferred_path_internal_error_iff
         [of "Some [''Selects'', ''IMG_0001.JPG'']" "[''Selects'', ''IMG_0001.HEIC'']"] a b
  show ?thesis by simp
qed

section \<open>Claims about the priority between candidates of a scan\<close>

text \<open>
  C1.  Of a sidecar file \<open>x\<close> and a raw file \<open>r\<close> the resolver returns \<open>x\<close>
  whichever of the two is the current selection; it writes the "Updating" message
  when \<open>x\<close> is the candidate and replaces \<open>r\<close>, and nothing when \<open>x\<close> is already
  selected.  So when a scan returns, the record of a stem was unresolved before, and
  the candidates observed for the stem are \<open>x\<close> and \<open>r\<close> in either order, the
  record holds \<open>x\<close>.
\<close>

theorem xmp_outranks_raw:
  assumes "class_of x = Some XMP" and "class_of r = Some RAW"
  shows "select_preferred_path (Some r) x = ([Updating (stem x) x], Inr (Some x))
       \<and> select_preferred_path (Some x) r = ([], Inr (Some x))
       \<and> (fst (find_matching_files tree sd images ij msi h) = Inr images
            \<and> record_of h images st a \<and> found_file_path (objects h a) = None
            \<and> (observed tree sd ij st = [r, x] \<or> observed tree sd ij st = [x, r])
          \<longrightarrow> resolved_path (snd (find_matching_files tree sd images ij msi h)) a = Some x)"
proof (intro conjI impI)
  show a: "select_preferred_path (Some r) x = ([Updating (stem x) x], Inr (Some x))"
    using assms by (simp add: select_Some)
  show b: "select_preferred_path (Some x) r = ([], Inr (Some x))"
    using assms by (simp add: select_Some)
  assume h: "fst (find_matching_files tree sd images ij msi h) = Inr images
            \<and> record_of h images st a \<and> found_file_path (objects h a) = None
            \<and> (observed tree sd ij st = [r, x] \<or> observed tree sd ij st = [x, r])"
  then have "resolve_all None (observed tree sd ij st)
         = Inr (resolved_path (snd (find_matching_files tree sd images ij msi h)) a)"
    using scan_resolve_record [of tree sd images ij msi h images st a] by simp
  with h a b assms show "resolved_path (snd (find_matching_files tree sd images ij msi h)) a = Some x"
    by (auto simp: select_first)
qed

theorem xmp_outranks_raw_witness:
  "class_of [''photos'', ''Selects'', ''IMG_0001.XMP''] = Some XMP
   \<and> class_of [''photos'', ''Selects'', ''IMG_0001.ARW''] = Some RAW
   \<and> observed example_tree [''photos''] False ''IMG_0001''
       = [[''photos'', ''Selects'', ''IMG_0001.ARW''], [''photos'', ''Selects'', ''IMG_0001.XMP'']]
   \<and> select_preferred_path (Some [''photos'', ''Selects'', ''IMG_0001.ARW''])
         [''photos'', ''Selects'', ''IMG_0001.XMP'']
       = ([Updating ''IMG_0001'' [''photos'', ''Selects'', ''IMG_0001.XMP'']],
          Inr (Some [''photos'', ''Selects'', ''IMG_0001.XMP'']))
   \<and> resolved_path (snd (find_matching_files example_tree [''photos''] 0 False 100 example_store)) 1
       = Some [''photos'', ''Selects'', ''IMG_0001.XMP'']"
proof -
  have x: "class_of [''photos'', ''Selects'', ''IMG_0001.XMP''] = Some XMP" by code_simp
  have r: "class_of [''photos'', ''Selects'', ''IMG_0001.ARW''] = Some RAW" by code_simp
  have st: "stem [''photos'', ''Selects'', ''IMG_0001.XMP''] = ''IMG_0001''" by code_simp
  have run: "fst (find_matching_files example_tree [''photos''] 0 False 100 example_store) = Inr 0"
    by code_simp
  have rec: "record_of example_store 0 ''IMG_0001'' 1"
    by (simp add: record_of_def example_store_def)
  have init: "found_file_path (objects example_store 1) = None"
    by (simp add: example_store_def example_image_def)
  have obs: "observed example_tree [''photos''] False ''IMG_0001''
       = [[''photos'', ''Selects'', ''IMG_0001.ARW''], [''photos'', ''Selects'', ''IMG_0001.XMP'']]"
    by code_simp
  from xmp_outranks_raw [OF x r, where tree = example_tree and sd = "[''photos'']"
      and images = 0 and ij = False and msi = 100 and h = example_store
      and st = "''IMG_0001''" and a = 1]
    x r st run rec init obs
  show ?thesis by simp
qed

text \<open>
  C8.  With no current selection the resolver returns a candidate of a recognized
  type and writes the "Found" message.  So when a scan returns, the record of a stem
  was unresolved before, and all candidates observed for the stem are of one class,
  there is exactly one such candidate and the record holds it, wherever the walk met
  it.
\<close>

theorem first_candidate_selected:
  "(class_of new \<noteq> None \<longrightarrow>
      select_preferred_path None new = ([Found (stem new) new], Inr (Some new)))
   \<and> (fst (find_matching_files tree sd images ij msi h) = Inr images
        \<and> record_of h images st a \<and> found_file_path (objects h a) = None
        \<and> observed tree sd ij st \<noteq> []
        \<and> (\<forall>p \<in> set (observed tree sd ij st). class_of p = Some k)
      \<longrightarrow> (\<exists>p. observed tree sd ij st = [p]
               \<and> resolved_path (snd (find_matching_files tree sd images ij msi h)) a = Some p))"
proof (intro conjI impI)
  assume "class_of new \<noteq> None"
  then show "select_preferred_path None new = ([Found (stem new) new], Inr (Some new))"
    by (rule select_first)
next
  let ?R = "find_matching_files tree sd images ij msi h"
  assume h: "fst ?R = Inr images \<and> record_of h images st a
      \<and> found_file_path (objects h a) = None \<and> observed tree sd ij st \<noteq> []
      \<and> (\<forall>p \<in> set (observed tree sd ij st). class_of p = Some k)"
  then obtain p ps where obs: "observed tree sd ij st = p # ps"
    by (cases "observed tree sd ij st") auto
  from h have res: "resolve_all None (observed tree sd ij st) = Inr (resolved_path (snd ?R) a)"
    using scan_resolve_record [of tree sd images ij msi h images st a] by simp
  from h obs have p: "class_of p = Some k" by simp
  have "ps = []"
  proof (cases ps)
    case (Cons q qs)
    with h obs have "class_of q = Some k" by simp
    with res obs Cons p show ?thesis by (simp add: select_first select_Some)
  qed simp
  with res obs p show "\<exists>p. observed tree sd ij st = [p] \<and> resolved_path (snd ?R) a = Some p"
    by (simp add: select_first)
qed

theorem first_candidate_selected_witness:
  "class_of [''photos'', ''Selects'', ''IMG_0002.JPG''] \<noteq> None
   \<and> observed example_tree [''photos''] False ''IMG_0002'' = [[''photos'', ''Selects'', ''IMG_0002.JPG'']]
   \<and> select_preferred_path None [''photos'', ''Selects'', ''IMG_0002.JPG'']
       = ([Found ''IMG_0002'' [''photos'', ''Selects'', ''IMG_0002.JPG'']],
          Inr (Some [''photos'', ''Selects'', ''IMG_0002.JPG'']))
   \<and> resolved_path (snd (find_matching_files example_tree [''photos''] 0 False 100 example_store)) 2
       = Some [''photos'', ''Selects'', ''IMG_0002.JPG'']"
proof -
  have c: "class_of [''photos'', ''Selects'', ''IMG_0002.JPG''] = Some RASTER" by code_simp
  have st: "stem [''photos'', ''Selects'', ''IMG_0002.JPG''] = ''IMG_0002''" by code_simp
  have run: "fst (find_matching_files example_tree [''photos''] 0 False 100 example_store) = Inr 0"
    by code_simp
  have rec: "record_of example_store 0 ''IMG_0002'' 2"
    by (simp add: record_of_def example_store_def)
  have init: "found_file_path (objects example_store 2) = None"
    by (simp add: example_store_def example_image_def)
  have obs: "observed example_tree [''photos''] False ''IMG_0002''
       = [[''photos'', ''Selects'', ''IMG_0002.JPG'']]"
    by code_simp
  from first_candidate_selected [where new = "[''photos'', ''Selects'', ''IMG_0002.JPG'']"
      and tree = example_tree and sd = "[''photos'']"
      and images = 0 and ij = False and msi = 100 and h = example_store
      and st = "''IMG_0002''" and a = 2 and k = RASTER]
    c st run rec init obs
  show ?thesis by simp
qed

section \<open>Claims about the effect of a scan on the table\<close>

text \<open>
  C5.  A scan that returns gives back the reference of the mapping it was given.
  Whether it returns or raises, no mapping in the store has changed (the same stems
  are bound to the same objects), every object is the object it was up to its field
  \<^verbatim>\<open>found_file_path\<close>, so \<^verbatim>\<open>line_no\<close>, \<^verbatim>\<open>input_file_path\<close> and \<^verbatim>\<open>input_desc\<close> are as
  before, objects that the mapping does not refer to are untouched, and the record
  of a stem for which no candidate is observed keeps its \<^verbatim>\<open>found_file_path\<close>: it
  stays \<^verbatim>\<open>None\<close> when it was \<^verbatim>\<open>None\<close>.
\<close>

theorem find_matching_files_frame:
  "(\<forall>ref. fst (find_matching_files tree sd images ij msi h) = Inr ref \<longrightarrow> ref = images)
   \<and> dicts (heap (snd (find_matching_files tree sd images ij msi h))) = dicts h
   \<and> (\<forall>a. objects (heap (snd (find_matching_files tree sd images ij msi h))) a
            = (objects h a)\<lparr>found_file_path :=
                 resolved_path (snd (find_matching_files tree sd images ij msi h)) a\<rparr>
          \<and> line_no (objects (heap (snd (find_matching_files tree sd images ij msi h))) a)
              = line_no (objects h a)
          \<and> input_file_path (objects (heap (snd (find_matching_files tree sd images ij msi h))) a)
              = input_file_path (objects h a)
          \<and> input_desc (objects (heap (snd (find_matching_files tree sd images ij msi h))) a)
              = input_desc (objects h a))
   \<and> (\<forall>a. a \<notin> ran (dicts h images) \<longrightarrow>
          objects (heap (snd (find_matching_files tree sd images ij msi h))) a = objects h a)
   \<and> (\<forall>st a. record_of h images st a \<and> observed tree sd ij st = [] \<longrightarrow>
          resolved_path (snd (find_matching_files tree sd images ij msi h)) a
            = found_file_path (objects h a))"
proof -
  let ?R = "find_matching_files tree sd images ij msi h"
  obtain r s' where run:
      "scan_flat (file_type_filter ij) images msi (visited tree sd) \<lparr>scanned = 0, heap = h, out = []\<rparr> = (r, s')"
    and s': "snd ?R = s'"
    and r: "fst ?R = (case r of None \<Rightarrow> Inr images | Some e \<Rightarrow> Inl e)"
    by (rule find_matching_files_run)
  note fr = scan_flat_frame [OF run]
  have ident: "\<forall>ref. fst ?R = Inr ref \<longrightarrow> ref = images"
    using r by (auto split: option.splits)
  have d: "dicts (heap (snd ?R)) = dicts h"
    using fr s' by simp
  have upd: "objects (heap (snd ?R)) a = (objects h a)\<lparr>found_file_path := resolved_path (snd ?R) a\<rparr>" for a
    using fr s' by simp
  have fields: "line_no (objects (heap (snd ?R)) a) = line_no (objects h a)
      \<and> input_file_path (objects (heap (snd ?R)) a) = input_file_path (objects h a)
      \<and> input_desc (objects (heap (snd ?R)) a) = input_desc (objects h a)" for a
    by (subst (1 2 3) upd) simp
  have foreign: "objects (heap (snd ?R)) a = objects h a" if "a \<notin> ran (dicts h images)" for a
  proof -
    from scan_flat_origin [OF run, of a] that s'
    have "resolved_path (snd ?R) a = found_file_path (objects h a)"
      by (simp add: candidate_paths_foreign)
    with upd [of a] show ?thesis by simp
  qed
  have none: "resolved_path (snd ?R) a = found_file_path (objects h a)"
    if "record_of h images st a \<and> observed tree sd ij st = []" for st a
    using scan_origin_record [of h images st a tree sd ij msi] that by simp
  from ident d upd fields foreign none show ?thesis by blast
qed

theorem find_matching_files_frame_witness:
  "record_of example_store 0 ''IMG_0003'' 3
   \<and> observed example_tree [''photos''] False ''IMG_0003'' = []
   \<and> resolved_path (snd (find_matching_files example_tree [''photos''] 0 False 100 example_store)) 3
       = None
   \<and> line_no (objects (heap (snd (find_matching_files example_tree [''photos''] 0 False 100
         example_store))) 1) = 1"
proof -
  have rec: "record_of example_store 0 ''IMG_0003'' 3"
    by (simp add: record_of_def example_store_def)
  have init: "found_file_path (objects example_store 3) = None"
    by (simp add: example_store_def example_image_def)
  have ln: "line_no (objects example_store 1) = 1"
    by (simp add: example_store_def example_image_def)
  have obs: "observed example_tree [''photos''] False ''IMG_0003'' = []"
    by code_simp
  from find_matching_files_frame [of example_tree "[''photos'']" 0 False 100 example_store]
    rec init ln obs
  show ?thesis by simp
qed

text \<open>
  C9.  When the files before some file of the walk are examined without an
  exception and the scan raises at that file (the budget is exceeded, or the
  resolver raises), the function raises that exception and the store it leaves is
  the store as it was after the files before: every record holds what the resolver
  made of the candidates met so far.  Nothing is rolled back.
\<close>

theorem abort_keeps_earlier_matches:
  assumes "visited tree sd = pre @ (d, f) # post"
    and "fst (scan_flat (file_type_filter ij) images msi pre \<lparr>scanned = 0, heap = h, out = []\<rparr>) = None"
    and "fst (scan_file (file_type_filter ij) images msi d f
           (snd (scan_flat (file_type_filter ij) images msi pre \<lparr>scanned = 0, heap = h, out = []\<rparr>)))
         = Some e"
  shows "fst (find_matching_files tree sd images ij msi h) = Inl e
     \<and> heap (snd (find_matching_files tree sd images ij msi h))
         = heap (snd (scan_flat (file_type_filter ij) images msi pre \<lparr>scanned = 0, heap = h, out = []\<rparr>))
     \<and> (\<forall>a. resolve_all (found_file_path (objects h a))
               (candidate_paths (file_type_filter ij) (\<lambda>k. dicts h images k = Some a) pre)
             = Inr (resolved_path (snd (find_matching_files tree sd images ij msi h)) a))"
proof -
  let ?ftf = "file_type_filter ij"
  let ?s0 = "\<lparr>scanned = 0, heap = h, out = []\<rparr>"
  obtain s1 where pre: "scan_flat ?ftf images msi pre ?s0 = (None, s1)"
    using assms(2) by (metis surjective_pairing)
  obtain s2 where step: "scan_file ?ftf images msi d f s1 = (Some e, s2)"
    using assms(3) pre by (metis snd_conv surjective_pairing)
  have run: "scan_flat ?ftf images msi (visited tree sd) ?s0 = (Some e, s2)"
    by (simp add: assms(1) scan_flat_append pre step)
  then have R: "find_matching_files tree sd images ij msi h = (Inl e, s2)"
    by (simp add: find_matching_files_flat)
  have keep: "heap s2 = heap s1"
    using step
    by (cases rule: scan_file_cases[where msi=msi and s=s1 and f=f and ftf="?ftf" and images=images])
       (auto simp: scan_file_abort scan_file_skip_type scan_file_skip_stem scan_file_match
          split: prod.splits sum.splits)
  have "resolve_all (found_file_path (objects h a))
          (candidate_paths ?ftf (\<lambda>k. dicts h images k = Some a) pre) = Inr (resolved_path s2 a)" for a
    using scan_flat_resolve [OF pre, of a] keep by simp
  with R keep pre show ?thesis by simp
qed

theorem abort_keeps_earlier_matches_witness:
  "visited example_conflict_tree [''photos'']
     = [([''photos''], ''IMG_0001.ARW''), ([''photos''], ''IMG_0002.JPG'')]
       @ ([''photos''], ''IMG_0002.ARW'') # [([''photos''], ''IMG_0003.HEIC'')]
   \<and> fst (find_matching_files example_conflict_tree [''photos''] 0 False 100 example_store)
       = Inl (SystemExit 1)
   \<and> resolved_path (snd (find_matching_files example_conflict_tree [''photos''] 0 False 100
         example_store)) 1 = Some [''photos'', ''IMG_0001.ARW'']"
proof -
  let ?pre = "[([''photos''], ''IMG_0001.ARW''), ([''photos''], ''IMG_0002.JPG'')]"
  let ?s0 = "\<lparr>scanned = 0, heap = example_store, out = []\<rparr>"
  have v: "visited example_conflict_tree [''photos'']
     = ?pre @ ([''photos''], ''IMG_0002.ARW'') # [([''photos''], ''IMG_0003.HEIC'')]"
    by code_simp
  have pre: "fst (scan_flat (file_type_filter False) 0 100 ?pre ?s0) = None"
    by code_simp
  have step: "fst (scan_file (file_type_filter False) 0 100 [''photos''] ''IMG_0002.ARW''
                (snd (scan_flat (file_type_filter False) 0 100 ?pre ?s0))) = Some (SystemExit 1)"
    by code_simp
  have before: "resolved_path (snd (scan_flat (file_type_filter False) 0 100 ?pre ?s0)) 1
      = Some [''photos'', ''IMG_0001.ARW'']"
    by code_simp
  from abort_keeps_earlier_matches [OF v pre step] v before
  show ?thesis by simp
qed

section \<open>Claims about what a scan visits\<close>

text \<open>
  C6.  The scan of a tree is the scan of the tree without its subdirectories named
  \<^verbatim>\<open>CaptureOne\<close>, at every depth: the exception or reference, the counter, the store
  and the output agree, so trees that differ only inside such directories are
  scanned alike.  Every file visited lies in a directory whose path below the search
  directory has no component with that name.  (The search directory is where the
  walk starts; its own name is not looked at.)
\<close>

theorem reserved_directory_pruned:
  "find_matching_files (prune tree) sd images ij msi h = find_matching_files tree sd images ij msi h
   \<and> (\<forall>tree'. prune tree' = prune tree \<longrightarrow>
          find_matching_files tree' sd images ij msi h = find_matching_files tree sd images ij msi h)
   \<and> (\<forall>(d, f) \<in> set (visited tree sd). \<exists>rel. d = sd @ rel \<and> ''CaptureOne'' \<notin> set rel)"
proof -
  have eq: "find_matching_files (prune t) sd images ij msi h = find_matching_files t sd images ij msi h" for t
    by (simp add: find_matching_files_def walk_prune)
  have "find_matching_files tree' sd images ij msi h = find_matching_files tree sd images ij msi h"
    if "prune tree' = prune tree" for tree'
    using eq [of tree'] eq [of tree] that by simp
  moreover have "\<exists>rel. d = sd @ rel \<and> ''CaptureOne'' \<notin> set rel" if "(d, f) \<in> set (visited tree sd)" for d f
  proof -
    from that obtain fs where "(d, fs) \<in> set (walk ignore_dirs sd tree)"
      by (auto simp: visited_def flatten_walk_def)
    from walk_below(1) [OF this] show ?thesis by (auto simp: ignore_dirs_def)
  qed
  ultimately show ?thesis using eq by blast
qed

theorem reserved_directory_pruned_witness:
  "([''photos'', ''Selects''], ''IMG_0001.ARW'') \<in> set (visited example_tree [''photos''])
   \<and> (\<exists>rel. [''photos'', ''Selects''] = [''photos''] @ rel \<and> ''CaptureOne'' \<notin> set rel)
   \<and> prune (prune example_tree) = prune example_tree
   \<and> find_matching_files (prune example_tree) [''photos''] 0 False 100 example_store
       = find_matching_files example_tree [''photos''] 0 False 100 example_store"
proof -
  have v: "([''photos'', ''Selects''], ''IMG_0001.ARW'') \<in> set (visited example_tree [''photos''])"
    by code_simp
  have p: "prune (prune example_tree) = prune example_tree" by code_simp
  from reserved_directory_pruned [of example_tree "[''photos'']" 0 False 100 example_store] v p
  show ?thesis by fastforce
qed

text \<open>
  C7.  With \<^verbatim>\<open>ignore_jpg\<close> the type filter is all types without the raster types.  The
  \<^verbatim>\<open>found_file_path\<close> of every object at the end of the scan, returned or raised, is
  what it was before the scan or a path of the sidecar or raw class; no candidate
  observed for any stem is of the raster class; and a file of the raster class only
  adds to the counter and is reported as skipped (or exceeds the budget), without a
  call of the resolver.
\<close>

theorem ignore_jpg_excludes_raster:
  "file_type_filter True = ALL_AVAILABLE_TYPES - JPG_TYPES
   \<and> (\<forall>a. resolved_path (snd (find_matching_files tree sd images True msi h)) a
             = found_file_path (objects h a)
          \<or> (\<exists>p. resolved_path (snd (find_matching_files tree sd images True msi h)) a = Some p
                \<and> (class_of p = Some XMP \<or> class_of p = Some RAW)))
   \<and> (\<forall>st. \<forall>p \<in> set (observed tree sd True st). class_of p \<noteq> Some RASTER)
   \<and> (\<forall>d f s. class_of (Path_of f) = Some RASTER \<longrightarrow>
          scan_file (file_type_filter True) images msi d f s =
            (if msi < scanned s + 1
             then (Some (SystemExit 1),
                   s\<lparr>scanned := scanned s + 1, out := out s @ [Err_aborted msi]\<rparr>)
             else (None, s\<lparr>scanned := scanned s + 1, out := out s @ [Skipping (Path_of f)]\<rparr>)))"
proof -
  let ?R = "find_matching_files tree sd images True msi h"
  have cand: "class_of p = Some XMP \<or> class_of p = Some RAW"
    if "p \<in> set (candidate_paths (file_type_filter True) want xs)" for p want xs
  proof -
    from candidate_paths_props [OF that]
    have "lower (suffix p) \<in> ALL_AVAILABLE_TYPES - JPG_TYPES" by (simp add: file_type_filter_def)
    then have "class_of p \<noteq> None" "class_of p \<noteq> Some RASTER"
      by (simp_all add: class_of_def class_of_ext_None class_of_ext_RASTER)
    then show ?thesis by (cases "class_of p") (auto intro: file_class.exhaust)
  qed
  obtain r s' where run:
      "scan_flat (file_type_filter True) images msi (visited tree sd) \<lparr>scanned = 0, heap = h, out = []\<rparr> = (r, s')"
    and s': "snd ?R = s'"
    by (rule find_matching_files_run)
  have a: "resolved_path (snd ?R) a = found_file_path (objects h a)
          \<or> (\<exists>p. resolved_path (snd ?R) a = Some p \<and> (class_of p = Some XMP \<or> class_of p = Some RAW))" for a
    using scan_flat_origin [OF run, of a] s' cand by auto
  have b: "class_of p \<noteq> Some RASTER" if "p \<in> set (observed tree sd True st)" for p st
    using cand that unfolding observed_def by fastforce
  have c: "scan_file (file_type_filter True) images msi d f s =
            (if msi < scanned s + 1
             then (Some (SystemExit 1),
                   s\<lparr>scanned := scanned s + 1, out := out s @ [Err_aborted msi]\<rparr>)
             else (None, s\<lparr>scanned := scanned s + 1, out := out s @ [Skipping (Path_of f)]\<rparr>))"
    if "class_of (Path_of f) = Some RASTER" for d f s
  proof -
    from that have "lower (suffix (Path_of f)) \<notin> file_type_filter True"
      by (simp add: file_type_filter_def class_of_def class_of_ext_RASTER)
    then show ?thesis by (simp add: scan_file_abort scan_file_skip_type)
  qed
  from a b c show ?thesis by (simp add: file_type_filter_def)
qed

theorem ignore_jpg_excludes_raster_witness:
  "[''photos'', ''Selects'', ''IMG_0001.XMP'']
      \<in> set (observed example_tree [''photos''] True ''IMG_0001'')
   \<and> class_of [''photos'', ''Selects'', ''IMG_0001.XMP''] \<noteq> Some RASTER
   \<and> class_of (Path_of ''IMG_0002.JPG'') = Some RASTER
   \<and> scan_file (file_type_filter True) 0 100 [''photos'', ''Selects''] ''IMG_0002.JPG''
         \<lparr>scanned = 0, heap = example_store, out = []\<rparr>
       = (None, \<lparr>scanned = 1, heap = example_store, out = [Skipping (Path_of ''IMG_0002.JPG'')]\<rparr>)"
proof -
  note T = ignore_jpg_excludes_raster [of example_tree "[''photos'']" 0 100 example_store]
  have obs: "[''photos'', ''Selects'', ''IMG_0001.XMP'']
      \<in> set (observed example_tree [''photos''] True ''IMG_0001'')"
    by code_simp
  have c: "class_of (Path_of ''IMG_0002.JPG'') = Some RASTER" by code_simp
  from T obs have x: "class_of [''photos'', ''Selects'', ''IMG_0001.XMP''] \<noteq> Some RASTER"
    by blast
  from T c have "scan_file (file_type_filter True) 0 100 [''photos'', ''Selects''] ''IMG_0002.JPG''
         \<lparr>scanned = 0, heap = example_store, out = []\<rparr>
       = (if (100::int) < scanned \<lparr>scanned = 0, heap = example_store, out = []\<rparr> + 1
          then (Some (SystemExit 1),
                \<lparr>scanned = 0, heap = example_store, out = []\<rparr>
                  \<lparr>scanned := scanned \<lparr>scanned = 0, heap = example_store, out = []\<rparr> + 1,
                   out := out \<lparr>scanned = 0, heap = example_store, out = []\<rparr> @ [Err_aborted 100]\<rparr>)
          else (None,
                \<lparr>scanned = 0, heap = example_store, out = []\<rparr>
                  \<lparr>scanned := scanned \<lparr>scanned = 0, heap = example_store, out = []\<rparr> + 1,
                   out := out \<lparr>scanned = 0, heap = example_store, out = []\<rparr>
                     @ [Skipping (Path_of ''IMG_0002.JPG'')]\<rparr>))"
    by blast
  then have "scan_file (file_type_filter True) 0 100 [''photos'', ''Selects''] ''IMG_0002.JPG''
         \<lparr>scanned = 0, heap = example_store, out = []\<rparr>
       = (None, \<lparr>scanned = 1, heap = example_store, out = [Skipping (Path_of ''IMG_0002.JPG'')]\<rparr>)"
    by simp
  with obs c x show ?thesis by blast
qed

text \<open>
  C10.  A file name with a non-empty stem and an extension without a dot is
  classified by its lower-cased extension, so two names whose extensions differ
  only in letter case are in the same class.  A file whose stem is not a key of the
  mapping, whatever the keys are up to letter case, is counted and leaves the store
  and, its type permitting, the output alone; and the record of a stem only ever
  receives a path whose stem is equal to that stem.
\<close>

theorem stems_exact_extensions_caseless:
  "(b \<noteq> [] \<and> b' \<noteq> [] \<and> e \<noteq> [] \<and> CHR ''.'' \<notin> set e \<and> CHR ''.'' \<notin> set e'
      \<and> lower e = lower e' \<longrightarrow>
        class_of (joinpath d (b @ CHR ''.'' # e)) = class_of_ext (CHR ''.'' # lower e)
        \<and> class_of (joinpath d (b @ CHR ''.'' # e)) = class_of (joinpath d' (b' @ CHR ''.'' # e')))
   \<and> (dicts (heap s) images (stem (Path_of f)) = None \<longrightarrow>
        scan_file ftf images msi cdir f s =
          (if msi < scanned s + 1
           then (Some (SystemExit 1),
                 s\<lparr>scanned := scanned s + 1, out := out s @ [Err_aborted msi]\<rparr>)
           else if lower (suffix (Path_of f)) \<notin> ftf
           then (None, s\<lparr>scanned := scanned s + 1, out := out s @ [Skipping (Path_of f)]\<rparr>)
           else (None, s\<lparr>scanned := scanned s + 1\<rparr>)))
   \<and> (record_of h images st a \<longrightarrow>
        resolved_path (snd (find_matching_files tree sd images ij msi h)) a
          = found_file_path (objects h a)
        \<or> (\<exists>p. resolved_path (snd (find_matching_files tree sd images ij msi h)) a = Some p
              \<and> stem p = st))"
proof (intro conjI impI)
  assume h: "b \<noteq> [] \<and> b' \<noteq> [] \<and> e \<noteq> [] \<and> CHR ''.'' \<notin> set e \<and> CHR ''.'' \<notin> set e'
      \<and> lower e = lower e'"
  then have "e' \<noteq> []" by (auto simp: lower_def)
  with h show "class_of (joinpath d (b @ CHR ''.'' # e)) = class_of_ext (CHR ''.'' # lower e)"
    and "class_of (joinpath d (b @ CHR ''.'' # e)) = class_of (joinpath d' (b' @ CHR ''.'' # e'))"
    by (simp_all add: class_of_def suffix_stem_extension lower_dot)
next
  assume "dicts (heap s) images (stem (Path_of f)) = None"
  then show "scan_file ftf images msi cdir f s =
          (if msi < scanned s + 1
           then (Some (SystemExit 1),
                 s\<lparr>scanned := scanned s + 1, out := out s @ [Err_aborted msi]\<rparr>)
           else if lower (suffix (Path_of f)) \<notin> ftf
           then (None, s\<lparr>scanned := scanned s + 1, out := out s @ [Skipping (Path_of f)]\<rparr>)
           else (None, s\<lparr>scanned := scanned s + 1\<rparr>))"
    by (simp add: scan_file_abort scan_file_skip_type scan_file_skip_stem)
next
  assume "record_of h images st a"
  from scan_origin_record [OF this, of tree sd ij msi]
  show "resolved_path (snd (find_matching_files tree sd images ij msi h)) a
          = found_file_path (objects h a)
        \<or> (\<exists>p. resolved_path (snd (find_matching_files tree sd images ij msi h)) a = Some p
              \<and> stem p = st)"
    unfolding observed_def by (auto dest: candidate_paths_props)
qed

theorem stems_exact_extensions_caseless_witness:
  "lower ''XMP'' = lower ''xmp''
   \<and> class_of (joinpath [''Selects''] (''IMG_0001'' @ CHR ''.'' # ''XMP''))
       = class_of (joinpath [''Selects''] (''IMG_0001'' @ CHR ''.'' # ''xmp''))
   \<and> dicts example_store 0 (stem (Path_of ''img_0003.heic'')) = None
   \<and> scan_file (file_type_filter False) 0 100 [''photos'', ''Selects''] ''img_0003.heic''
         \<lparr>scanned = 0, heap = example_store, out = []\<rparr>
       = (None, \<lparr>scanned = 1, heap = example_store, out = []\<rparr>)"
proof -
  let ?s = "\<lparr>scanned = 0, heap = example_store, out = []\<rparr>"
  note T = stems_exact_extensions_caseless [where b = "''IMG_0001''" and b' = "''IMG_0001''"
      and e = "''XMP''" and e' = "''xmp''" and d = "[''Selects'']" and d' = "[''Selects'']"
      and s = ?s and images = 0
      and f = "''img_0003.heic''" and ftf = "file_type_filter False" and msi = 100
      and cdir = "[''photos'', ''Selects'']"]
  have l: "lower ''XMP'' = lower ''xmp''" by code_simp
  have d: "dicts example_store 0 (stem (Path_of ''img_0003.heic'')) = None" by code_simp
  have t: "lower (suffix (Path_of ''img_0003.heic'')) \<in> file_type_filter False" by code_simp
  have pre: "''IMG_0001'' \<noteq> [] \<and> ''IMG_0001'' \<noteq> [] \<and> ''XMP'' \<noteq> [] \<and> CHR ''.'' \<notin> set ''XMP''
      \<and> CHR ''.'' \<notin> set ''xmp'' \<and> lower ''XMP'' = lower ''xmp''"
    using l by simp
  from T [THEN conjunct1, THEN mp, OF pre]
  have c: "class_of (joinpath [''Selects''] (''IMG_0001'' @ CHR ''.'' # ''XMP''))
       = class_of (joinpath [''Selects''] (''IMG_0001'' @ CHR ''.'' # ''xmp''))"
    by (rule conjunct2)
  have d': "dicts (heap ?s) 0 (stem (Path_of ''img_0003.heic'')) = None"
    using d by simp
  from T [THEN conjunct2, THEN conjunct1, THEN mp, OF d'] t
  have "scan_file (file_type_filter False) 0 100 [''photos'', ''Selects''] ''img_0003.heic'' ?s
       = (None, \<lparr>scanned = 1, heap = example_store, out = []\<rparr>)"
    by simp
  with l c d show ?thesis by blast
qed

section \<open>Claims about the scan budget\<close>

text \<open>
  C4 (amended).  Every file visited adds one to the counter, whatever its type or
  stem: a scan that returns has counted all files of the walk, and they are within
  the budget \<^verbatim>\<open>max_scan_items\<close>.  When the walk has more files than the budget the
  scan raises.  Once a file has been visited and the counter exceeds the budget, the
  exception is \<^verbatim>\<open>SystemExit(1)\<close>, the counter is one more than the budget (one, for a
  negative budget), and the last message carries the budget, \<^verbatim>\<open>max_scan_items\<close>,
  and not the counter.  The files after the first \<^verbatim>\<open>max_scan_items + 1\<close> of the walk
  have no influence on the result.
\<close>

theorem scan_budget:
  "(\<forall>ftf d f s. scanned (snd (scan_file ftf images msi d f s)) = scanned s + 1)
   \<and> (\<forall>ref. fst (find_matching_files tree sd images ij msi h) = Inr ref \<longrightarrow>
          scanned (snd (find_matching_files tree sd images ij msi h)) = int (length (visited tree sd))
          \<and> (visited tree sd \<noteq> [] \<longrightarrow> int (length (visited tree sd)) \<le> msi))
   \<and> (visited tree sd \<noteq> [] \<and> msi < int (length (visited tree sd)) \<longrightarrow>
          (\<exists>e. fst (find_matching_files tree sd images ij msi h) = Inl e))
   \<and> (0 < scanned (snd (find_matching_files tree sd images ij msi h))
        \<and> msi < scanned (snd (find_matching_files tree sd images ij msi h)) \<longrightarrow>
          fst (find_matching_files tree sd images ij msi h) = Inl (SystemExit 1)
          \<and> scanned (snd (find_matching_files tree sd images ij msi h)) = max 0 msi + 1
          \<and> (\<exists>evs. out (snd (find_matching_files tree sd images ij msi h))
                     = evs @ [Err_aborted msi]))
   \<and> (\<forall>tree' sd'.
          take (nat msi + 1) (visited tree' sd') = take (nat msi + 1) (visited tree sd) \<longrightarrow>
          find_matching_files tree' sd' images ij msi h
            = find_matching_files tree sd images ij msi h)"
proof -
  let ?R = "find_matching_files tree sd images ij msi h"
  let ?s0 = "\<lparr>scanned = 0, heap = h, out = []\<rparr>"
  have step: "scanned (snd (scan_file ftf images msi d f s)) = scanned s + 1" for ftf d f s
    using scan_file_frame(1) [of ftf images msi d f s] by (metis surjective_pairing)
  note cnt = find_matching_files_counter [where tree = tree and sd = sd and images = images
      and ij = ij and msi = msi and h = h]
  have cut: "find_matching_files tree' sd' images ij msi h = ?R"
    if "take (nat msi + 1) (visited tree' sd') = take (nat msi + 1) (visited tree sd)" for tree' sd'
  proof -
    have "scan_flat (file_type_filter ij) images msi (visited tree' sd') ?s0
        = scan_flat (file_type_filter ij) images msi (visited tree sd) ?s0"
      using scan_flat_take [of "file_type_filter ij" images msi "visited tree' sd'" ?s0]
        scan_flat_take [of "file_type_filter ij" images msi "visited tree sd" ?s0] that
      by simp
    then show ?thesis by (simp add: find_matching_files_flat)
  qed
  from step cnt(1) cnt(2) cnt(3) cut show ?thesis by blast
qed

theorem scan_budget_witness:
  "3 < scanned (snd (find_matching_files example_tree [''photos''] 0 False 3 example_store))
   \<and> fst (find_matching_files example_tree [''photos''] 0 False 3 example_store) = Inl (SystemExit 1)
   \<and> scanned (snd (find_matching_files example_tree [''photos''] 0 False 3 example_store)) = 4
   \<and> (\<exists>evs. out (snd (find_matching_files example_tree [''photos''] 0 False 3 example_store))
              = evs @ [Err_aborted 3])"
proof -
  note T = scan_budget [where images = 0 and msi = 3 and tree = example_tree
      and sd = "[''photos'']" and ij = False and h = example_store]
  have c: "scanned (snd (find_matching_files example_tree [''photos''] 0 False 3 example_store)) = 4"
    by code_simp
  then have over: "0 < scanned (snd (find_matching_files example_tree [''photos''] 0 False 3 example_store))
      \<and> 3 < scanned (snd (find_matching_files example_tree [''photos''] 0 False 3 example_store))"
    by simp
  from T [THEN conjunct2, THEN conjunct2, THEN conjunct2, THEN conjunct1, THEN mp, OF over]
  have "fst (find_matching_files example_tree [''photos''] 0 False 3 example_store) = Inl (SystemExit 1)
      \<and> (\<exists>evs. out (snd (find_matching_files example_tree [''photos''] 0 False 3 example_store))
              = evs @ [Err_aborted 3])"
    by blast
  with over c show ?thesis by blast
qed

text \<open>
  The message of the abort does not report the counter.  In the example with a
  budget of 3 the scan stops at the fourth file, with the counter at 4; the output
  ends with the message for 3 files, and no message carries 4.
\<close>

theorem scan_budget_message_counterexample:
  "fst (find_matching_files example_tree [''photos''] 0 False 3 example_store) = Inl (SystemExit 1)
   \<and> scanned (snd (find_matching_files example_tree [''photos''] 0 False 3 example_store)) = 4
   \<and> out (snd (find_matching_files example_tree [''photos''] 0 False 3 example_store))
       = [Found ''IMG_0001'' [''photos'', ''Selects'', ''IMG_0001.ARW''],
          Updating ''IMG_0001'' [''photos'', ''Selects'', ''IMG_0001.XMP''],
          Err_aborted 3]
   \<and> Err_aborted (scanned (snd (find_matching_files example_tree [''photos''] 0 False 3
         example_store)))
       \<notin> set (out (snd (find_matching_files example_tree [''photos''] 0 False 3 example_store)))"
proof -
  have a: "fst (find_matching_files example_tree [''photos''] 0 False 3 example_store)
      = Inl (SystemExit 1)"
    by code_simp
  have b: "scanned (snd (find_matching_files example_tree [''photos''] 0 False 3 example_store)) = 4"
    by code_simp
  have c: "out (snd (find_matching_files example_tree [''photos''] 0 False 3 example_store))
       = [Found ''IMG_0001'' [''photos'', ''Selects'', ''IMG_0001.ARW''],
          Updating ''IMG_0001'' [''photos'', ''Selects'', ''IMG_0001.XMP''],
          Err_aborted 3]"
    by code_simp
  from a b c show ?thesis by simp
qed

end
